theory Spec2Isabelle
  imports Main "HOL-Library.Sublist"
begin

section \<open>Streaming tool execution output\<close>

text \<open>
  A verification development for the streaming tool-output design: the data handlers of
  \<open>executeCommand\<close> (server side), the per-call progress state kept by the chat hook
  (\<open>handleStreamEvent\<close>, \<open>handleToolResult\<close>) and the abort listener of \<open>executeCommand\<close>,
  as the design document gives them; and, modelled from the specification because the
  sources have no code for them, the progress throttler and the completion of an
  execution. JavaScript strings are modelled as \<open>string\<close>; \<open>length\<close> counts the units
  that \<open>.length\<close> counts.
\<close>

subsection \<open>Data model\<close>

datatype ProgressType = Stdout | Stderr | Status

text \<open>The argument of \<open>onProgress\<close> is \<open>{ type, content }\<close>; \<open>ToolProgressUpdate\<close> has the
  same two fields and adds \<open>toolCallId\<close> and \<open>timestamp\<close>.\<close>

record ProgressChunk =
  type :: ProgressType
  content :: string

record ToolProgressUpdate = ProgressChunk +
  toolCallId :: string
  timestamp :: nat

text \<open>The two accumulators \<open>stdout\<close> and \<open>stderr\<close>: local variables of \<open>executeCommand\<close>,
  and the fields of an entry of \<open>toolProgress\<close> on the client.\<close>

record Output =
  stdout :: string
  stderr :: string

subsection \<open>executeCommand: the data handlers\<close>

text \<open>\<open>onProgress\<close> is optional; a provided callback is a transformer of whatever it
  writes to (type \<open>'w\<close>).\<close>

record 'w Options =
  maxBuffer :: int
  onProgress :: "(ProgressChunk \<Rightarrow> 'w \<Rightarrow> 'w) option"

record 'w Exec = Output +
  world :: 'w

text \<open>\<open>options.onProgress?.(u)\<close>\<close>

definition call_onProgress :: "'w Options \<Rightarrow> ProgressChunk \<Rightarrow> 'w \<Rightarrow> 'w" where
  "call_onProgress options u w = (case onProgress options of None \<Rightarrow> w | Some f \<Rightarrow> f u w)"

text \<open>\<open>child.stdout?.on('data', ...)\<close>, with \<open>chunk = data.toString()\<close>\<close>

definition stdout_on_data :: "'w Options \<Rightarrow> 'w Exec \<Rightarrow> string \<Rightarrow> 'w Exec" where
  "stdout_on_data options st chunk =
     (if int (length (stdout st)) + int (length chunk) \<le> maxBuffer options
      then st\<lparr>stdout := stdout st @ chunk,
              world := call_onProgress options \<lparr>type = Stdout, content = chunk\<rparr> (world st)\<rparr>
      else st)"

text \<open>\<open>child.stderr?.on('data', ...)\<close>\<close>

definition stderr_on_data :: "'w Options \<Rightarrow> 'w Exec \<Rightarrow> string \<Rightarrow> 'w Exec" where
  "stderr_on_data options st chunk =
     (if int (length (stderr st)) + int (length chunk) \<le> maxBuffer options
      then st\<lparr>stderr := stderr st @ chunk,
              world := call_onProgress options \<lparr>type = Stderr, content = chunk\<rparr> (world st)\<rparr>
      else st)"

text \<open>The data events of one run, in arrival order.\<close>

datatype DataEvent = StdoutData string | StderrData string

fun on_data :: "'w Options \<Rightarrow> 'w Exec \<Rightarrow> DataEvent \<Rightarrow> 'w Exec" where
  "on_data options st (StdoutData chunk) = stdout_on_data options st chunk"
| "on_data options st (StderrData chunk) = stderr_on_data options st chunk"

definition run_data :: "'w Options \<Rightarrow> 'w Exec \<Rightarrow> DataEvent list \<Rightarrow> 'w Exec" where
  "run_data options st evs = foldl (on_data options) st evs"

text \<open>Both accumulators start empty.\<close>

definition exec_init :: "'w \<Rightarrow> 'w Exec" where
  "exec_init w = \<lparr>stdout = [], stderr = [], world = w\<rparr>"

text \<open>A callback that records each invocation, in order.\<close>

definition record_call :: "ProgressChunk \<Rightarrow> ProgressChunk list \<Rightarrow> ProgressChunk list" where
  "record_call u log = log @ [u]"

definition recording :: "int \<Rightarrow> ProgressChunk list Options" where
  "recording cap = \<lparr>maxBuffer = cap, onProgress = Some record_call\<rparr>"

text \<open>What a run was given and what it reported, per channel.\<close>

definition stdout_chunks :: "DataEvent list \<Rightarrow> string list" where
  "stdout_chunks evs = [c. StdoutData c \<leftarrow> evs]"

definition stderr_chunks :: "DataEvent list \<Rightarrow> string list" where
  "stderr_chunks evs = [c. StderrData c \<leftarrow> evs]"

definition progress_of :: "ProgressType \<Rightarrow> ProgressChunk list \<Rightarrow> string" where
  "progress_of k log = concat (map content (filter (\<lambda>u. type u = k) log))"

subsection \<open>The chat hook: progress per tool call\<close>

text \<open>The stream's event types; only \<open>tool-progress\<close> has a payload the hook reads:
  \<open>{ type: 'tool-progress', toolCallId, progress }\<close>.\<close>

datatype StreamEvent =
    TextDelta
  | ToolCallStreamingStart
  | ToolCallDelta
  | ToolCallStreamingFinish
  | ToolProgress string ToolProgressUpdate
  | ToolResult

text \<open>\<open>Record<string, { stdout: string; stderr: string }>\<close>, initially \<open>{}\<close>.\<close>

type_synonym ToolProgress = "string \<rightharpoonup> Output"

text \<open>\<open>prev[id]?.stdout || ''\<close> and \<open>prev[id]?.stderr || ''\<close>: the empty string for a missing
  entry (and for an empty field, which is the field's own value).\<close>

definition prev_stdout :: "ToolProgress \<Rightarrow> string \<Rightarrow> string" where
  "prev_stdout prev tid = (case prev tid of None \<Rightarrow> [] | Some e \<Rightarrow> stdout e)"

definition prev_stderr :: "ToolProgress \<Rightarrow> string \<Rightarrow> string" where
  "prev_stderr prev tid = (case prev tid of None \<Rightarrow> [] | Some e \<Rightarrow> stderr e)"

definition handleStreamEvent :: "ToolProgress \<Rightarrow> StreamEvent \<Rightarrow> ToolProgress" where
  "handleStreamEvent prev event =
     (case event of
        ToolProgress tid p \<Rightarrow>
          prev(tid \<mapsto>
            \<lparr>stdout = prev_stdout prev tid @ (if type p = Stdout then content p else []),
             stderr = prev_stderr prev tid @ (if type p = Stderr then content p else [])\<rparr>)
      | _ \<Rightarrow> prev)"

text \<open>\<open>const { [toolCallId]: _, ...rest } = prev; return rest\<close>\<close>

definition handleToolResult :: "ToolProgress \<Rightarrow> string \<Rightarrow> ToolProgress" where
  "handleToolResult prev tid = prev(tid := None)"

text \<open>The calls the hook receives over time, and the tool call each one addresses.\<close>

datatype HookCall = OnStreamEvent StreamEvent | OnToolResult string

fun hook_call :: "ToolProgress \<Rightarrow> HookCall \<Rightarrow> ToolProgress" where
  "hook_call s (OnStreamEvent e) = handleStreamEvent s e"
| "hook_call s (OnToolResult tid) = handleToolResult s tid"

fun addressee :: "HookCall \<Rightarrow> string option" where
  "addressee (OnStreamEvent (ToolProgress tid p)) = Some tid"
| "addressee (OnStreamEvent e) = None"
| "addressee (OnToolResult tid) = Some tid"

text \<open>The content delivered for one call on one channel, in delivery order.\<close>

definition delivered :: "ProgressType \<Rightarrow> string \<Rightarrow> StreamEvent list \<Rightarrow> string" where
  "delivered k tid evs = concat [content p. ToolProgress t p \<leftarrow> evs, t = tid, type p = k]"

subsection \<open>executeCommand: the abort listener\<close>

text \<open>
  The child is a Node.js \<open>ChildProcess\<close>. Of its documented behaviour the listener uses:
  \<open>kill(signal)\<close> sends the signal to a process that is still there, and then sets
  \<open>killed\<close>; on a process that has exited it sends nothing and leaves \<open>killed\<close> as it
  is. So \<open>killed\<close> says that a signal was sent, not that the process has terminated.
  \<open>received\<close> lists the signals sent, \<open>exited\<close> is the operating system's view.
\<close>

datatype Signal = SIGTERM | SIGKILL

record ChildProcess =
  exited :: bool
  killed :: bool
  received :: "Signal list"

definition kill :: "ChildProcess \<Rightarrow> Signal \<Rightarrow> ChildProcess" where
  "kill c sig = (if exited c then c else c\<lparr>killed := True, received := received c @ [sig]\<rparr>)"

text \<open>\<open>timers\<close> holds the delays (ms) of the timeouts set and not yet fired.\<close>

record Runtime =
  child :: ChildProcess
  timers :: "nat list"

text \<open>The callback given to \<open>setTimeout\<close>: \<open>if (!child.killed) child.kill('SIGKILL')\<close>\<close>

definition on_timeout :: "Runtime \<Rightarrow> Runtime" where
  "on_timeout rt = (if \<not> killed (child rt) then rt\<lparr>child := kill (child rt) SIGKILL\<rparr> else rt)"

text \<open>The \<open>abort\<close> listener: \<open>child.kill('SIGTERM')\<close>, then \<open>setTimeout(..., 5000)\<close>\<close>

definition on_abort :: "Runtime \<Rightarrow> Runtime" where
  "on_abort rt = rt\<lparr>child := kill (child rt) SIGTERM, timers := timers rt @ [5000]\<rparr>"

text \<open>What can happen to a run: the signal aborts, the oldest pending timeout fires,
  the process exits.\<close>

datatype Occurrence = Abort | TimerFires | ChildExits

fun occur :: "Runtime \<Rightarrow> Occurrence \<Rightarrow> Runtime" where
  "occur rt Abort = on_abort rt"
| "occur rt TimerFires =
     (case timers rt of [] \<Rightarrow> rt | d # ds \<Rightarrow> on_timeout (rt\<lparr>timers := ds\<rparr>))"
| "occur rt ChildExits = rt\<lparr>child := (child rt)\<lparr>exited := True\<rparr>\<rparr>"

definition spawned :: Runtime where
  "spawned = \<lparr>child = \<lparr>exited = False, killed = False, received = []\<rparr>, timers = []\<rparr>"

subsection \<open>The progress throttler\<close>

text \<open>
  Modelled from the spec: the Progress Throttler, which the sources name only as a
  performance consideration (batch updates every 100 ms or 4 KB, whichever comes first)
  and do not implement. It wraps the raw callback: raw chunks are appended to the
  unflushed content of their channel, and the coalesced content is emitted when 100 ms
  have elapsed since the channel's last emission or 4 KB are unflushed. Time is the
  clock reading (ms) at which the throttler is entered, by a raw chunk or by its timer;
  each emission is kept with the clock reading at which it was made.
\<close>

record Channel =
  unflushed :: string
  lastEmission :: nat

record Throttler =
  channels :: "ProgressType \<Rightarrow> Channel"
  emitted :: "(nat \<times> ProgressChunk) list"

text \<open>Modelled from the spec: the two triggers, for a channel with unflushed content.\<close>

definition due :: "nat \<Rightarrow> Channel \<Rightarrow> bool" where
  "due now ch \<longleftrightarrow> unflushed ch \<noteq> [] \<and> (lastEmission ch + 100 \<le> now \<or> 4096 \<le> length (unflushed ch))"

text \<open>Modelled from the spec: one coalesced update carries all the unflushed content, and
  the channel's window starts again at the time of the emission.\<close>

definition emit :: "nat \<Rightarrow> ProgressType \<Rightarrow> Throttler \<Rightarrow> Throttler" where
  "emit now k th =
     th\<lparr>channels := (channels th)(k := \<lparr>unflushed = [], lastEmission = now\<rparr>),
        emitted := emitted th @ [(now, \<lparr>type = k, content = unflushed (channels th k)\<rparr>)]\<rparr>"

text \<open>Modelled from the spec: a channel is emitted when, and only when, it is due.\<close>

definition check :: "nat \<Rightarrow> ProgressType \<Rightarrow> Throttler \<Rightarrow> Throttler" where
  "check now k th = (if due now (channels th k) then emit now k th else th)"

text \<open>Modelled from the spec: the rate-limited callback that replaces the raw one.\<close>

definition throttled :: "nat \<Rightarrow> ProgressChunk \<Rightarrow> Throttler \<Rightarrow> Throttler" where
  "throttled now u th =
     check now (type u)
       (th\<lparr>channels := (channels th)
             (type u := (channels th (type u))
                \<lparr>unflushed := unflushed (channels th (type u)) @ content u\<rparr>)\<rparr>)"

text \<open>Modelled from the spec: the throttler's timer looks at every channel.\<close>

definition on_timer :: "nat \<Rightarrow> Throttler \<Rightarrow> Throttler" where
  "on_timer now th = check now Status (check now Stderr (check now Stdout th))"

text \<open>Modelled from the spec: on executor completion, whatever is unflushed is emitted.\<close>

definition flush_channel :: "nat \<Rightarrow> ProgressType \<Rightarrow> Throttler \<Rightarrow> Throttler" where
  "flush_channel now k th = (if unflushed (channels th k) \<noteq> [] then emit now k th else th)"

definition flush :: "nat \<Rightarrow> Throttler \<Rightarrow> Throttler" where
  "flush now th = flush_channel now Status (flush_channel now Stderr (flush_channel now Stdout th))"



text \<open>Modelled from the spec: at the start nothing is unflushed and the windows begin.\<close>

definition throttler_init :: "nat \<Rightarrow> Throttler" where
  "throttler_init start = \<lparr>channels = (\<lambda>k. \<lparr>unflushed = [], lastEmission = start\<rparr>), emitted = []\<rparr>"








subsection \<open>Completion of an execution\<close>

text \<open>
  Modelled from the spec: how \<open>executeCommand\<close> settles, which the sources leave out
  (\<open>... rest unchanged ...\<close>). The result is \<open>{ exitCode, stdout, stderr, outcome }\<close>;
  the duration is not modelled. A spawn failure settles at once with outcome \<open>error\<close>;
  a cancellation or an elapsed timeout asks for termination and the promise settles when
  the process exits, with the outcome of the first cause, or with \<open>success\<close> when the
  process exited without being asked to. Once settled, nothing changes.
\<close>

text \<open>Modelled from the spec: the outcomes, the result and the promise that carries it.\<close>

datatype Outcome = Success | Error | Cancelled | Timeout

record CommandResult = Output +
  exitCode :: "int option"
  outcome :: Outcome

datatype Promise = Pending | Resolved CommandResult | Rejected string

text \<open>Modelled from the spec: what can happen to an execution, and its state: the
  accumulators, the cause of termination asked for so far, and the promise.\<close>

datatype Lifecycle =
    SpawnFailure
  | Data DataEvent
  | CancelTriggered
  | TimeoutElapsed
  | ProcessExited int

record 'w Execution =
  exec :: "'w Exec"
  asked :: "Outcome option"
  promise :: Promise

text \<open>Modelled from the spec: the result carries what has been accumulated.\<close>

definition resolve :: "'w Execution \<Rightarrow> int option \<Rightarrow> Outcome \<Rightarrow> 'w Execution" where
  "resolve x code oc =
     x\<lparr>promise := Resolved \<lparr>stdout = stdout (exec x), stderr = stderr (exec x),
                             exitCode = code, outcome = oc\<rparr>\<rparr>"

text \<open>Modelled from the spec: the first cause asked for is the one that counts.\<close>

definition ask :: "'w Execution \<Rightarrow> Outcome \<Rightarrow> 'w Execution" where
  "ask x oc = (case asked x of None \<Rightarrow> x\<lparr>asked := Some oc\<rparr> | Some _ \<Rightarrow> x)"

text \<open>Modelled from the spec: one step of an execution; data goes through the handlers
  above.\<close>

definition lifecycle :: "'w Options \<Rightarrow> 'w Execution \<Rightarrow> Lifecycle \<Rightarrow> 'w Execution" where
  "lifecycle options x ev =
     (if promise x \<noteq> Pending then x
      else case ev of
        SpawnFailure \<Rightarrow> resolve x None Error
      | Data d \<Rightarrow> x\<lparr>exec := on_data options (exec x) d\<rparr>
      | CancelTriggered \<Rightarrow> ask x Cancelled
      | TimeoutElapsed \<Rightarrow> ask x Timeout
      | ProcessExited code \<Rightarrow>
          resolve x (Some code) (case asked x of None \<Rightarrow> Success | Some oc \<Rightarrow> oc))"

definition execution_init :: "'w \<Rightarrow> 'w Execution" where
  "execution_init w = \<lparr>exec = exec_init w, asked = None, promise = Pending\<rparr>"

definition execute :: "'w Options \<Rightarrow> 'w \<Rightarrow> Lifecycle list \<Rightarrow> 'w Execution" where
  "execute options w evs = foldl (lifecycle options) (execution_init w) evs"

text \<open>The event that settles a run: the first spawn failure or process exit.\<close>

fun settling :: "Lifecycle list \<Rightarrow> Lifecycle option" where
  "settling [] = None"
| "settling (SpawnFailure # evs) = Some SpawnFailure"
| "settling (ProcessExited code # evs) = Some (ProcessExited code)"
| "settling (ev # evs) = settling evs"

text \<open>The first request for termination before the run settles, as an outcome.\<close>

fun first_cause :: "Lifecycle list \<Rightarrow> Outcome option" where
  "first_cause [] = None"
| "first_cause (CancelTriggered # evs) = Some Cancelled"
| "first_cause (TimeoutElapsed # evs) = Some Timeout"
| "first_cause (SpawnFailure # evs) = None"
| "first_cause (ProcessExited code # evs) = None"
| "first_cause (Data d # evs) = first_cause evs"

definition outcome_of :: "Promise \<Rightarrow> Outcome option" where
  "outcome_of p = (case p of Resolved r \<Rightarrow> Some (outcome r) | _ \<Rightarrow> None)"

text \<open>The outcome a list of events leads to, read off the list: none while nothing settles,
  \<open>error\<close> when a spawn failure settles, and when an exit settles the first cause asked
  for (\<open>a\<close> if one was asked for before the list), or \<open>success\<close> without one.\<close>

definition verdict :: "Outcome option \<Rightarrow> Lifecycle list \<Rightarrow> Outcome option" where
  "verdict a evs =
     (case settling evs of
        None \<Rightarrow> None
      | Some SpawnFailure \<Rightarrow> Some Error
      | Some _ \<Rightarrow> (case (case a of None \<Rightarrow> first_cause evs | Some oc \<Rightarrow> Some oc) of
                    None \<Rightarrow> Some Success | Some oc \<Rightarrow> Some oc))"

subsection \<open>An execution behind the throttler\<close>

text \<open>
  Modelled from the spec: the throttler in its place, between the executor and the
  consumer. The callback given to the data handlers is the rate-limited one, at the
  clock reading of the event; the throttler's timer runs while the execution is pending;
  and on completion the throttler is flushed first and the promise settles after, so
  the final emission comes before the terminal result. Once settled, nothing changes.
\<close>

definition throttling :: "int \<Rightarrow> nat \<Rightarrow> Throttler Options" where
  "throttling cap now = \<lparr>maxBuffer = cap, onProgress = Some (throttled now)\<rparr>"

text \<open>Modelled from the spec: what happens to such an execution, with the clock reading:
  an event of its lifecycle, or the throttler's timer firing.\<close>

datatype Moment = At nat Lifecycle | TimerAt nat

text \<open>Modelled from the spec: the events that complete an execution.\<close>

definition completes :: "Lifecycle \<Rightarrow> bool" where
  "completes ev = (case ev of SpawnFailure \<Rightarrow> True | ProcessExited code \<Rightarrow> True | _ \<Rightarrow> False)"

text \<open>Modelled from the spec: the final flush, and the timer, act on the throttler of the
  execution.\<close>

definition flush_first :: "nat \<Rightarrow> Throttler Execution \<Rightarrow> Throttler Execution" where
  "flush_first now x = x\<lparr>exec := (exec x)\<lparr>world := flush now (world (exec x))\<rparr>\<rparr>"

definition timer_fires :: "nat \<Rightarrow> Throttler Execution \<Rightarrow> Throttler Execution" where
  "timer_fires now x = x\<lparr>exec := (exec x)\<lparr>world := on_timer now (world (exec x))\<rparr>\<rparr>"

text \<open>Modelled from the spec: one step; a completing event flushes, then settles.\<close>

definition throttled_step :: "int \<Rightarrow> Throttler Execution \<Rightarrow> Moment \<Rightarrow> Throttler Execution" where
  "throttled_step cap x m =
     (if promise x \<noteq> Pending then x
      else case m of
        At now ev \<Rightarrow>
          lifecycle (throttling cap now) (if completes ev then flush_first now x else x) ev
      | TimerAt now \<Rightarrow> timer_fires now x)"

definition throttled_run :: "int \<Rightarrow> nat \<Rightarrow> Moment list \<Rightarrow> Throttler Execution" where
  "throttled_run cap start ms =
     foldl (throttled_step cap) (execution_init (throttler_init start)) ms"








section \<open>Properties of the data handlers\<close>

lemma run_data_Nil: "run_data options st [] = st"
  by (simp add: run_data_def)

lemma run_data_Cons: "run_data options st (e # evs) = run_data options (on_data options st e) evs"
  by (simp add: run_data_def)

lemma stdout_chunks_simps:
  "stdout_chunks [] = []"
  "stdout_chunks (StdoutData c # evs) = c # stdout_chunks evs"
  "stdout_chunks (StderrData c # evs) = stdout_chunks evs"
  by (simp_all add: stdout_chunks_def)

lemma stderr_chunks_simps:
  "stderr_chunks [] = []"
  "stderr_chunks (StderrData c # evs) = c # stderr_chunks evs"
  "stderr_chunks (StdoutData c # evs) = stderr_chunks evs"
  by (simp_all add: stderr_chunks_def)

text \<open>Each accumulator is made of whole chunks, taken in arrival order.\<close>

lemma run_data_stdout_whole_chunks:
  "\<exists>cs. subseq cs (stdout_chunks evs) \<and> stdout (run_data options st evs) = stdout st @ concat cs"
proof (induction evs arbitrary: st)
  case Nil
  show ?case by (rule exI[of _ "[]"]) (simp add: run_data_Nil)
next
  case (Cons e evs)
  obtain cs where cs: "subseq cs (stdout_chunks evs)"
    "stdout (run_data options (on_data options st e) evs) = stdout (on_data options st e) @ concat cs"
    using Cons.IH by blast
  show ?case
  proof (cases e)
    case (StdoutData c)
    show ?thesis
    proof (cases "int (length (stdout st)) + int (length c) \<le> maxBuffer options")
      case True
      then have "stdout (on_data options st e) = stdout st @ c"
        using StdoutData by (simp add: stdout_on_data_def)
      then have "stdout (run_data options st (e # evs)) = stdout st @ concat (c # cs)"
        using cs(2) by (simp add: run_data_Cons)
      moreover have "subseq (c # cs) (stdout_chunks (e # evs))"
        using cs(1) StdoutData by (simp add: stdout_chunks_simps)
      ultimately show ?thesis by blast
    next
      case False
      then have "on_data options st e = st"
        using StdoutData by (simp add: stdout_on_data_def)
      then have "stdout (run_data options st (e # evs)) = stdout st @ concat cs"
        using cs(2) by (simp add: run_data_Cons)
      moreover have "subseq cs (stdout_chunks (e # evs))"
        using cs(1) StdoutData by (simp add: stdout_chunks_simps list_emb_Cons)
      ultimately show ?thesis by blast
    qed
  next
    case (StderrData c)
    then have "stdout (on_data options st e) = stdout st"
      by (simp add: stderr_on_data_def)
    then have "stdout (run_data options st (e # evs)) = stdout st @ concat cs"
      using cs(2) by (simp add: run_data_Cons)
    moreover have "subseq cs (stdout_chunks (e # evs))"
      using cs(1) StderrData by (simp add: stdout_chunks_simps)
    ultimately show ?thesis by blast
  qed
qed

lemma run_data_stderr_whole_chunks:
  "\<exists>cs. subseq cs (stderr_chunks evs) \<and> stderr (run_data options st evs) = stderr st @ concat cs"
proof (induction evs arbitrary: st)
  case Nil
  show ?case by (rule exI[of _ "[]"]) (simp add: run_data_Nil)
next
  case (Cons e evs)
  obtain cs where cs: "subseq cs (stderr_chunks evs)"
    "stderr (run_data options (on_data options st e) evs) = stderr (on_data options st e) @ concat cs"
    using Cons.IH by blast
  show ?case
  proof (cases e)
    case (StderrData c)
    show ?thesis
    proof (cases "int (length (stderr st)) + int (length c) \<le> maxBuffer options")
      case True
      then have "stderr (on_data options st e) = stderr st @ c"
        using StderrData by (simp add: stderr_on_data_def)
      then have "stderr (run_data options st (e # evs)) = stderr st @ concat (c # cs)"
        using cs(2) by (simp add: run_data_Cons)
      moreover have "subseq (c # cs) (stderr_chunks (e # evs))"
        using cs(1) StderrData by (simp add: stderr_chunks_simps)
      ultimately show ?thesis by blast
    next
      case False
      then have "on_data options st e = st"
        using StderrData by (simp add: stderr_on_data_def)
      then have "stderr (run_data options st (e # evs)) = stderr st @ concat cs"
        using cs(2) by (simp add: run_data_Cons)
      moreover have "subseq cs (stderr_chunks (e # evs))"
        using cs(1) StderrData by (simp add: stderr_chunks_simps list_emb_Cons)
      ultimately show ?thesis by blast
    qed
  next
    case (StdoutData c)
    then have "stderr (on_data options st e) = stderr st"
      by (simp add: stdout_on_data_def)
    then have "stderr (run_data options st (e # evs)) = stderr st @ concat cs"
      using cs(2) by (simp add: run_data_Cons)
    moreover have "subseq cs (stderr_chunks (e # evs))"
      using cs(1) StdoutData by (simp add: stderr_chunks_simps)
    ultimately show ?thesis by blast
  qed
qed

text \<open>An accumulator within the cap stays within it.\<close>

lemma on_data_stdout_bound:
  "int (length (stdout st)) \<le> maxBuffer options \<Longrightarrow>
   int (length (stdout (on_data options st e))) \<le> maxBuffer options"
  by (cases e) (auto simp: stdout_on_data_def stderr_on_data_def)

lemma on_data_stderr_bound:
  "int (length (stderr st)) \<le> maxBuffer options \<Longrightarrow>
   int (length (stderr (on_data options st e))) \<le> maxBuffer options"
  by (cases e) (auto simp: stdout_on_data_def stderr_on_data_def)

lemma run_data_stdout_bound:
  "int (length (stdout st)) \<le> maxBuffer options \<Longrightarrow>
   int (length (stdout (run_data options st evs))) \<le> maxBuffer options"
  by (induction evs arbitrary: st) (simp_all add: run_data_Nil run_data_Cons on_data_stdout_bound)

lemma run_data_stderr_bound:
  "int (length (stderr st)) \<le> maxBuffer options \<Longrightarrow>
   int (length (stderr (run_data options st evs))) \<le> maxBuffer options"
  by (induction evs arbitrary: st) (simp_all add: run_data_Nil run_data_Cons on_data_stderr_bound)

text \<open>What the callback has been given, channel by channel, is what is stored.\<close>

lemma progress_of_simps:
  "progress_of k [] = []"
  "progress_of k (log @ [u]) = progress_of k log @ (if type u = k then content u else [])"
  by (simp_all add: progress_of_def)

lemma on_data_progress_matches:
  assumes "progress_of Stdout (world st) = stdout st" "progress_of Stderr (world st) = stderr st"
  shows "progress_of Stdout (world (on_data (recording cap) st e)) = stdout (on_data (recording cap) st e)
       \<and> progress_of Stderr (world (on_data (recording cap) st e)) = stderr (on_data (recording cap) st e)"
  using assms
  by (cases e)
     (simp_all add: stdout_on_data_def stderr_on_data_def call_onProgress_def recording_def
        record_call_def progress_of_simps)

lemma run_data_progress_matches:
  assumes "progress_of Stdout (world st) = stdout st" "progress_of Stderr (world st) = stderr st"
  shows "progress_of Stdout (world (run_data (recording cap) st evs)) = stdout (run_data (recording cap) st evs)
       \<and> progress_of Stderr (world (run_data (recording cap) st evs)) = stderr (run_data (recording cap) st evs)"
  using assms
proof (induction evs arbitrary: st)
  case Nil
  then show ?case by (simp add: run_data_Nil)
next
  case (Cons e evs)
  have "progress_of Stdout (world (on_data (recording cap) st e)) = stdout (on_data (recording cap) st e)"
    and "progress_of Stderr (world (on_data (recording cap) st e)) = stderr (on_data (recording cap) st e)"
    using on_data_progress_matches [OF Cons.prems] by simp_all
  then have "progress_of Stdout (world (run_data (recording cap) (on_data (recording cap) st e) evs))
               = stdout (run_data (recording cap) (on_data (recording cap) st e) evs)
           \<and> progress_of Stderr (world (run_data (recording cap) (on_data (recording cap) st e) evs))
               = stderr (run_data (recording cap) (on_data (recording cap) st e) evs)"
    by (rule Cons.IH)
  then show ?case
    by (simp add: run_data_Cons)
qed

text \<open>
  C1, as the code has it. With the callback that records its calls: a chunk that fits under
  the cap is appended and reported once, as it came; a chunk that does not fit changes
  nothing and is not reported. So, for every run from empty accumulators, the content
  reported for a channel is exactly what is stored for it.
\<close>

theorem progress_matches_result:
  "stdout_on_data (recording cap) st chunk =
     (if int (length (stdout st)) + int (length chunk) \<le> cap
      then st\<lparr>stdout := stdout st @ chunk, world := world st @ [\<lparr>type = Stdout, content = chunk\<rparr>]\<rparr>
      else st)
 \<and> stderr_on_data (recording cap) st chunk =
     (if int (length (stderr st)) + int (length chunk) \<le> cap
      then st\<lparr>stderr := stderr st @ chunk, world := world st @ [\<lparr>type = Stderr, content = chunk\<rparr>]\<rparr>
      else st)
 \<and> progress_of Stdout (world (run_data (recording cap) (exec_init []) evs))
      = stdout (run_data (recording cap) (exec_init []) evs)
 \<and> progress_of Stderr (world (run_data (recording cap) (exec_init []) evs))
      = stderr (run_data (recording cap) (exec_init []) evs)"
proof -
  have "progress_of Stdout (world (exec_init [])) = stdout (exec_init [])"
    and "progress_of Stderr (world (exec_init [])) = stderr (exec_init [])"
    by (simp_all add: exec_init_def progress_of_simps)
  then have "progress_of Stdout (world (run_data (recording cap) (exec_init []) evs))
               = stdout (run_data (recording cap) (exec_init []) evs)
           \<and> progress_of Stderr (world (run_data (recording cap) (exec_init []) evs))
               = stderr (run_data (recording cap) (exec_init []) evs)"
    by (rule run_data_progress_matches)
  moreover have "stdout_on_data (recording cap) st chunk =
     (if int (length (stdout st)) + int (length chunk) \<le> cap
      then st\<lparr>stdout := stdout st @ chunk, world := world st @ [\<lparr>type = Stdout, content = chunk\<rparr>]\<rparr>
      else st)"
    by (simp add: stdout_on_data_def call_onProgress_def recording_def record_call_def)
  moreover have "stderr_on_data (recording cap) st chunk =
     (if int (length (stderr st)) + int (length chunk) \<le> cap
      then st\<lparr>stderr := stderr st @ chunk, world := world st @ [\<lparr>type = Stderr, content = chunk\<rparr>]\<rparr>
      else st)"
    by (simp add: stderr_on_data_def call_onProgress_def recording_def record_call_def)
  ultimately show ?thesis by blast
qed

text \<open>
  C1, as stated, fails: with a cap of 4, the chunk \<open>abcd\<close> fills the accumulator and the
  next chunk \<open>e\<close> is not reported; the callback has been called once for two chunks.
\<close>

theorem progress_stops_at_cap:
  "world (run_data (recording 4) (exec_init []) [StdoutData ''abcd'', StdoutData ''e''])
     = [\<lparr>type = Stdout, content = ''abcd''\<rparr>]
 \<and> map content (world (run_data (recording 4) (exec_init []) [StdoutData ''abcd'', StdoutData ''e'']))
     \<noteq> [''abcd'', ''e'']"
  by (simp add: run_data_def stdout_on_data_def call_onProgress_def recording_def
        record_call_def exec_init_def)

text \<open>
  C10. Truncation is chunk-atomic: a chunk that would take the accumulator past
  \<open>maxBuffer\<close> leaves the whole state as it was (nothing appended, no callback); after
  any run from empty accumulators each accumulator is a concatenation of whole chunks
  that arrived on its channel, in order; and with a cap that is not negative neither
  accumulator is ever longer than the cap.
\<close>

theorem truncation_is_chunk_atomic:
  "(maxBuffer options < int (length (stdout st)) + int (length chunk) \<longrightarrow>
      stdout_on_data options st chunk = st)
 \<and> (maxBuffer options < int (length (stderr st)) + int (length chunk) \<longrightarrow>
      stderr_on_data options st chunk = st)
 \<and> (\<exists>outs errs. subseq outs (stdout_chunks evs) \<and> subseq errs (stderr_chunks evs)
       \<and> stdout (run_data options (exec_init w) evs) = concat outs
       \<and> stderr (run_data options (exec_init w) evs) = concat errs)
 \<and> (0 \<le> maxBuffer options \<longrightarrow>
       int (length (stdout (run_data options (exec_init w) evs))) \<le> maxBuffer options
     \<and> int (length (stderr (run_data options (exec_init w) evs))) \<le> maxBuffer options)"
proof -
  have drop_out: "maxBuffer options < int (length (stdout st)) + int (length chunk) \<longrightarrow>
      stdout_on_data options st chunk = st"
    by (simp add: stdout_on_data_def)
  have drop_err: "maxBuffer options < int (length (stderr st)) + int (length chunk) \<longrightarrow>
      stderr_on_data options st chunk = st"
    by (simp add: stderr_on_data_def)
  obtain outs where outs: "subseq outs (stdout_chunks evs)"
    "stdout (run_data options (exec_init w) evs) = stdout (exec_init w) @ concat outs"
    using run_data_stdout_whole_chunks by blast
  obtain errs where errs: "subseq errs (stderr_chunks evs)"
    "stderr (run_data options (exec_init w) evs) = stderr (exec_init w) @ concat errs"
    using run_data_stderr_whole_chunks by blast
  have whole: "\<exists>outs errs. subseq outs (stdout_chunks evs) \<and> subseq errs (stderr_chunks evs)
       \<and> stdout (run_data options (exec_init w) evs) = concat outs
       \<and> stderr (run_data options (exec_init w) evs) = concat errs"
    using outs errs by (auto simp: exec_init_def)
  have bound: "0 \<le> maxBuffer options \<longrightarrow>
       int (length (stdout (run_data options (exec_init w) evs))) \<le> maxBuffer options
     \<and> int (length (stderr (run_data options (exec_init w) evs))) \<le> maxBuffer options"
  proof
    assume cap: "0 \<le> maxBuffer options"
    then have "int (length (stdout (exec_init w))) \<le> maxBuffer options"
      and "int (length (stderr (exec_init w))) \<le> maxBuffer options"
      by (simp_all add: exec_init_def)
    then show "int (length (stdout (run_data options (exec_init w) evs))) \<le> maxBuffer options
     \<and> int (length (stderr (run_data options (exec_init w) evs))) \<le> maxBuffer options"
      by (simp add: run_data_stdout_bound run_data_stderr_bound)
  qed
  from drop_out drop_err whole bound show ?thesis by blast
qed

theorem truncation_is_chunk_atomic_witness:
  "maxBuffer (recording 4) < int (length (stdout \<lparr>stdout = ''abc'', stderr = ''wxyz'', world = []\<rparr>))
     + int (length ''de'')
 \<and> stdout_on_data (recording 4) \<lparr>stdout = ''abc'', stderr = ''wxyz'', world = []\<rparr> ''de''
     = \<lparr>stdout = ''abc'', stderr = ''wxyz'', world = []\<rparr>
 \<and> maxBuffer (recording 4) < int (length (stderr \<lparr>stdout = ''abc'', stderr = ''wxyz'', world = []\<rparr>))
     + int (length ''de'')
 \<and> stderr_on_data (recording 4) \<lparr>stdout = ''abc'', stderr = ''wxyz'', world = []\<rparr> ''de''
     = \<lparr>stdout = ''abc'', stderr = ''wxyz'', world = []\<rparr>
 \<and> 0 \<le> maxBuffer (recording 4)
 \<and> int (length (stdout (run_data (recording 4) (exec_init [])
       [StdoutData ''abc'', StdoutData ''de'', StderrData ''wxyz'', StdoutData ''f''])))
     \<le> maxBuffer (recording 4)
 \<and> int (length (stderr (run_data (recording 4) (exec_init [])
       [StdoutData ''abc'', StdoutData ''de'', StderrData ''wxyz'', StdoutData ''f''])))
     \<le> maxBuffer (recording 4)"
  using truncation_is_chunk_atomic [of "recording 4"
      "\<lparr>stdout = ''abc'', stderr = ''wxyz'', world = []\<rparr>" "''de''"
      "[StdoutData ''abc'', StdoutData ''de'', StderrData ''wxyz'', StdoutData ''f'']" "[]"]
  by (simp add: recording_def)

section \<open>Properties of the progress state\<close>

lemma delivered_Nil: "delivered k tid [] = []"
  by (simp add: delivered_def)

lemma delivered_Cons:
  "delivered k tid (e # evs) = delivered k tid [e] @ delivered k tid evs"
  by (simp add: delivered_def)

lemma handleStreamEvent_stdout:
  "prev_stdout (handleStreamEvent s e) tid = prev_stdout s tid @ delivered Stdout tid [e]"
  by (cases e) (simp_all add: handleStreamEvent_def prev_stdout_def delivered_def)

lemma handleStreamEvent_stderr:
  "prev_stderr (handleStreamEvent s e) tid = prev_stderr s tid @ delivered Stderr tid [e]"
  by (cases e) (simp_all add: handleStreamEvent_def prev_stderr_def delivered_def)

lemma events_stdout:
  "prev_stdout (foldl handleStreamEvent s evs) tid = prev_stdout s tid @ delivered Stdout tid evs"
proof (induction evs arbitrary: s)
  case Nil
  show ?case by (simp add: delivered_Nil)
next
  case (Cons e evs)
  have "prev_stdout (foldl handleStreamEvent s (e # evs)) tid
        = prev_stdout (handleStreamEvent s e) tid @ delivered Stdout tid evs"
    using Cons.IH by simp
  also have "\<dots> = prev_stdout s tid @ delivered Stdout tid [e] @ delivered Stdout tid evs"
    by (simp add: handleStreamEvent_stdout)
  finally show ?case
    using delivered_Cons [of Stdout tid e evs] by simp
qed

lemma events_stderr:
  "prev_stderr (foldl handleStreamEvent s evs) tid = prev_stderr s tid @ delivered Stderr tid evs"
proof (induction evs arbitrary: s)
  case Nil
  show ?case by (simp add: delivered_Nil)
next
  case (Cons e evs)
  have "prev_stderr (foldl handleStreamEvent s (e # evs)) tid
        = prev_stderr (handleStreamEvent s e) tid @ delivered Stderr tid evs"
    using Cons.IH by simp
  also have "\<dots> = prev_stderr s tid @ delivered Stderr tid [e] @ delivered Stderr tid evs"
    by (simp add: handleStreamEvent_stderr)
  finally show ?case
    using delivered_Cons [of Stderr tid e evs] by simp
qed

text \<open>
  C2. After any sequence of stream events, from any state, the stdout held for a call is
  what was held before followed by the content of the stdout updates delivered for that
  call, in delivery order, and likewise for stderr; from the initial empty state it is
  exactly the delivered content. The hook applies no cap. The sequence is arbitrary, so
  this holds after every update.
\<close>

theorem accumulated_is_delivered:
  "prev_stdout (foldl handleStreamEvent s evs) tid = prev_stdout s tid @ delivered Stdout tid evs
 \<and> prev_stderr (foldl handleStreamEvent s evs) tid = prev_stderr s tid @ delivered Stderr tid evs
 \<and> prev_stdout (foldl handleStreamEvent Map.empty evs) tid = delivered Stdout tid evs
 \<and> prev_stderr (foldl handleStreamEvent Map.empty evs) tid = delivered Stderr tid evs"
proof -
  have "prev_stdout Map.empty tid = []" and "prev_stderr Map.empty tid = []"
    by (simp_all add: prev_stdout_def prev_stderr_def)
  then show ?thesis
    by (simp add: events_stdout events_stderr)
qed

text \<open>
  C3, as stated, fails for \<open>status\<close>: an entry has no status field, and a status update
  for a known call leaves the state as it was.
\<close>

theorem status_not_kept:
  "handleStreamEvent [''call_1'' \<mapsto> \<lparr>stdout = ''out'', stderr = ''err''\<rparr>]
     (ToolProgress ''call_1''
        \<lparr>type = Status, content = ''compiling'', toolCallId = ''call_1'', timestamp = 7\<rparr>)
   = [''call_1'' \<mapsto> \<lparr>stdout = ''out'', stderr = ''err''\<rparr>]"
  by (simp add: handleStreamEvent_def prev_stdout_def prev_stderr_def)

text \<open>
  C3, as the code has it. For a call that has an entry, a stdout update appends its
  content to \<open>stdout\<close>, a stderr update appends it to \<open>stderr\<close>, and a status update
  leaves the entry unchanged.
\<close>

theorem appendProgress_known:
  "prev tid = Some e \<Longrightarrow>
   handleStreamEvent prev (ToolProgress tid p) =
     prev(tid \<mapsto> (case type p of
                     Stdout \<Rightarrow> e\<lparr>stdout := stdout e @ content p\<rparr>
                   | Stderr \<Rightarrow> e\<lparr>stderr := stderr e @ content p\<rparr>
                   | Status \<Rightarrow> e))"
  by (cases e; cases "type p") (simp_all add: handleStreamEvent_def prev_stdout_def prev_stderr_def)

theorem appendProgress_known_witness:
  "[''call_1'' \<mapsto> \<lparr>stdout = ''out'', stderr = ''err''\<rparr>] ''call_1''
     = Some \<lparr>stdout = ''out'', stderr = ''err''\<rparr>
 \<and> handleStreamEvent [''call_1'' \<mapsto> \<lparr>stdout = ''out'', stderr = ''err''\<rparr>]
     (ToolProgress ''call_1''
        \<lparr>type = Stderr, content = ''!'', toolCallId = ''call_1'', timestamp = 7\<rparr>)
   = [''call_1'' \<mapsto> \<lparr>stdout = ''out'', stderr = ''err!''\<rparr>]"
  using appendProgress_known [of "[''call_1'' \<mapsto> \<lparr>stdout = ''out'', stderr = ''err''\<rparr>]" "''call_1''"
      "\<lparr>stdout = ''out'', stderr = ''err''\<rparr>"
      "\<lparr>type = Stderr, content = ''!'', toolCallId = ''call_1'', timestamp = 7\<rparr>"]
  by simp

text \<open>
  C4, as stated, fails for progress: an update for a call without an entry creates one.
\<close>

theorem unknown_progress_creates_entry:
  "handleStreamEvent Map.empty
     (ToolProgress ''ghost'' \<lparr>type = Stdout, content = ''hi'', toolCallId = ''ghost'', timestamp = 0\<rparr>)
     ''ghost'' = Some \<lparr>stdout = ''hi'', stderr = []\<rparr>
 \<and> handleStreamEvent Map.empty
     (ToolProgress ''ghost'' \<lparr>type = Stdout, content = ''hi'', toolCallId = ''ghost'', timestamp = 0\<rparr>)
     \<noteq> Map.empty"
proof -
  let ?s = "handleStreamEvent Map.empty
     (ToolProgress ''ghost'' \<lparr>type = Stdout, content = ''hi'', toolCallId = ''ghost'', timestamp = 0\<rparr>)"
  have a: "?s ''ghost'' = Some \<lparr>stdout = ''hi'', stderr = []\<rparr>"
    by (simp add: handleStreamEvent_def prev_stdout_def prev_stderr_def)
  have "?s \<noteq> Map.empty"
  proof
    assume "?s = Map.empty"
    then have "?s ''ghost'' = None" by (rule arg_cong [where f = "\<lambda>m. m ''ghost''"])
    with a show False by simp
  qed
  with a show ?thesis by (rule conjI)
qed

text \<open>
  C4, as the code has it. For a call without an entry, a progress update creates the
  entry, holding the update's content on its own channel and nothing on the other; a
  tool result leaves the state unchanged. Both are total: there is no failure.
\<close>

theorem unknown_id:
  "prev tid = None \<Longrightarrow>
   handleStreamEvent prev (ToolProgress tid p) =
     prev(tid \<mapsto> \<lparr>stdout = (if type p = Stdout then content p else []),
                   stderr = (if type p = Stderr then content p else [])\<rparr>)
 \<and> handleToolResult prev tid = prev"
  by (auto simp: handleStreamEvent_def prev_stdout_def prev_stderr_def handleToolResult_def)

theorem unknown_id_witness:
  "Map.empty ''ghost'' = (None :: Output option)
 \<and> handleStreamEvent Map.empty
     (ToolProgress ''ghost'' \<lparr>type = Stderr, content = ''hi'', toolCallId = ''ghost'', timestamp = 0\<rparr>)
   = [''ghost'' \<mapsto> \<lparr>stdout = [], stderr = ''hi''\<rparr>]
 \<and> handleToolResult Map.empty ''ghost'' = Map.empty"
  using unknown_id [of Map.empty "''ghost''"
      "\<lparr>type = Stderr, content = ''hi'', toolCallId = ''ghost'', timestamp = 0\<rparr>"]
  by simp

text \<open>
  C5. Handling the tool result of a call a second time leaves the state as the first
  time left it: the first removes the call's entry, and the second has nothing to change.
\<close>

theorem complete_idempotent:
  "handleToolResult (handleToolResult prev tid) tid = handleToolResult prev tid
 \<and> handleToolResult prev tid tid = None"
  by (simp add: handleToolResult_def)

lemma hook_call_other:
  "addressee c \<noteq> Some tid \<Longrightarrow> hook_call s c tid = s tid"
  by (cases c rule: addressee.cases)
     (auto simp: handleStreamEvent_def handleToolResult_def)

lemma hook_call_local:
  "s tid = s' tid \<Longrightarrow> hook_call s c tid = hook_call s' c tid"
  by (cases c rule: addressee.cases)
     (auto simp: handleStreamEvent_def handleToolResult_def prev_stdout_def prev_stderr_def)

lemma hook_calls_local:
  "s tid = s' tid \<Longrightarrow> foldl hook_call s cs tid = foldl hook_call s' cs tid"
proof (induction cs arbitrary: s s')
  case Nil
  then show ?case by simp
next
  case (Cons c cs)
  have "hook_call s c tid = hook_call s' c tid"
    using Cons.prems by (rule hook_call_local)
  then have "foldl hook_call (hook_call s c) cs tid = foldl hook_call (hook_call s' c) cs tid"
    by (rule Cons.IH)
  then show ?case by simp
qed

lemma hook_calls_own:
  "foldl hook_call s cs tid = foldl hook_call s (filter (\<lambda>c. addressee c = Some tid) cs) tid"
proof (induction cs arbitrary: s)
  case Nil
  show ?case by simp
next
  case (Cons c cs)
  let ?own = "filter (\<lambda>c. addressee c = Some tid)"
  show ?case
  proof (cases "addressee c = Some tid")
    case True
    have "foldl hook_call s (c # cs) tid = foldl hook_call (hook_call s c) cs tid"
      by simp
    also have "\<dots> = foldl hook_call (hook_call s c) (?own cs) tid"
      by (rule Cons.IH)
    also have "\<dots> = foldl hook_call s (?own (c # cs)) tid"
      using True by simp
    finally show ?thesis .
  next
    case False
    then have "hook_call s c tid = s tid" by (rule hook_call_other)
    then have "foldl hook_call (hook_call s c) cs tid = foldl hook_call s cs tid"
      by (rule hook_calls_local)
    then have "foldl hook_call s (c # cs) tid = foldl hook_call s cs tid"
      by simp
    also have "\<dots> = foldl hook_call s (?own cs) tid"
      by (rule Cons.IH)
    also have "\<dots> = foldl hook_call s (?own (c # cs)) tid"
      using False by simp
    finally show ?thesis .
  qed
qed

text \<open>
  C9. A progress event or a tool result for one call leaves the entry of every other call
  unchanged; over any interleaving of hook calls, the entry of a call is what the calls
  addressed to it alone would have produced; and a progress event appends at the end of
  its own channel, so the order of emission is kept.
\<close>

theorem calls_isolated:
  "(other \<noteq> tid \<longrightarrow>
      handleStreamEvent prev (ToolProgress tid p) other = prev other
    \<and> handleToolResult prev tid other = prev other)
 \<and> foldl hook_call s cs other = foldl hook_call s (filter (\<lambda>c. addressee c = Some other) cs) other
 \<and> prev_stdout (handleStreamEvent prev (ToolProgress tid p)) tid
      = prev_stdout prev tid @ (if type p = Stdout then content p else [])
 \<and> prev_stderr (handleStreamEvent prev (ToolProgress tid p)) tid
      = prev_stderr prev tid @ (if type p = Stderr then content p else [])"
proof -
  have "other \<noteq> tid \<longrightarrow>
      handleStreamEvent prev (ToolProgress tid p) other = prev other
    \<and> handleToolResult prev tid other = prev other"
    by (simp add: handleStreamEvent_def handleToolResult_def)
  moreover have "foldl hook_call s cs other
      = foldl hook_call s (filter (\<lambda>c. addressee c = Some other) cs) other"
    by (rule hook_calls_own)
  moreover have "prev_stdout (handleStreamEvent prev (ToolProgress tid p)) tid
      = prev_stdout prev tid @ (if type p = Stdout then content p else [])"
    by (simp add: handleStreamEvent_def prev_stdout_def)
  moreover have "prev_stderr (handleStreamEvent prev (ToolProgress tid p)) tid
      = prev_stderr prev tid @ (if type p = Stderr then content p else [])"
    by (simp add: handleStreamEvent_def prev_stderr_def)
  ultimately show ?thesis by blast
qed

theorem calls_isolated_witness:
  "''call_b'' \<noteq> ''call_a''
 \<and> handleStreamEvent [''call_b'' \<mapsto> \<lparr>stdout = ''b1'', stderr = []\<rparr>]
      (ToolProgress ''call_a''
         \<lparr>type = Stdout, content = ''a1'', toolCallId = ''call_a'', timestamp = 1\<rparr>) ''call_b''
     = Some \<lparr>stdout = ''b1'', stderr = []\<rparr>
 \<and> handleToolResult [''call_b'' \<mapsto> \<lparr>stdout = ''b1'', stderr = []\<rparr>] ''call_a'' ''call_b''
     = Some \<lparr>stdout = ''b1'', stderr = []\<rparr>"
  using calls_isolated [of "''call_b''" "''call_a''"
      "[''call_b'' \<mapsto> \<lparr>stdout = ''b1'', stderr = []\<rparr>]"
      "\<lparr>type = Stdout, content = ''a1'', toolCallId = ''call_a'', timestamp = 1\<rparr>"
      Map.empty "[]"]
  by simp

section \<open>Properties of the abort listener\<close>

lemma kill_keeps_killed: "killed c \<Longrightarrow> killed (kill c sig)"
  by (simp add: kill_def)

lemma occur_keeps_killed: "killed (child rt) \<Longrightarrow> killed (child (occur rt ev))"
  by (cases ev) (simp_all add: on_abort_def on_timeout_def kill_def split: list.splits)

lemma occur_no_sigkill:
  "killed (child rt) \<Longrightarrow> SIGKILL \<notin> set (received (child rt)) \<Longrightarrow>
   SIGKILL \<notin> set (received (child (occur rt ev)))"
  by (cases ev) (simp_all add: on_abort_def on_timeout_def kill_def split: list.splits)

lemma killed_never_sigkill:
  "killed (child rt) \<Longrightarrow> SIGKILL \<notin> set (received (child rt)) \<Longrightarrow>
   SIGKILL \<notin> set (received (child (foldl occur rt evs)))"
proof (induction evs arbitrary: rt)
  case Nil
  then show ?case by simp
next
  case (Cons ev evs)
  have "killed (child (occur rt ev))"
    using Cons.prems(1) by (rule occur_keeps_killed)
  moreover have "SIGKILL \<notin> set (received (child (occur rt ev)))"
    using Cons.prems by (rule occur_no_sigkill)
  ultimately have "SIGKILL \<notin> set (received (child (foldl occur (occur rt ev) evs)))"
    by (rule Cons.IH)
  then show ?case by simp
qed

text \<open>Whatever follows the abort of a running child, it is never sent SIGKILL.\<close>

lemma abort_running_never_sigkill:
  "SIGKILL \<notin> set (received (child (foldl occur spawned (Abort # evs))))"
proof -
  have "killed (child (on_abort spawned))"
    and "SIGKILL \<notin> set (received (child (on_abort spawned)))"
    by (simp_all add: on_abort_def spawned_def kill_def)
  then have "SIGKILL \<notin> set (received (child (foldl occur (on_abort spawned) evs)))"
    by (rule killed_never_sigkill)
  then show ?thesis by simp
qed

text \<open>
  C6. The code at the failing input: a running child is sent SIGTERM on abort and the
  5000 ms timeout is set; the child does not exit; when the timeout fires, \<open>killed\<close> is
  already true, so SIGKILL is not sent although the process has not exited.
\<close>

theorem no_forced_signal:
  "\<not> exited (child (foldl occur spawned [Abort, TimerFires]))
 \<and> received (child (foldl occur spawned [Abort, TimerFires])) = [SIGTERM]
 \<and> timers (foldl occur spawned [Abort]) = [5000]
 \<and> timers (foldl occur spawned [Abort, TimerFires]) = []"
  by (simp add: spawned_def on_abort_def on_timeout_def kill_def)

text \<open>An abort after the exit sends nothing, then and when its timeout fires.\<close>

lemma abort_after_exit:
  "received (child (foldl occur spawned [ChildExits, Abort, TimerFires])) = []
 \<and> timers (foldl occur spawned [ChildExits, Abort]) = [5000]"
  by (simp add: spawned_def on_abort_def on_timeout_def kill_def)

section \<open>Properties of the throttler\<close>

lemma emitted_content_snoc:
  "progress_of k (map snd (es @ [(t, u)])) = progress_of k (map snd es) @ (if type u = k then content u else [])"
  by (simp add: progress_of_simps)

























text \<open>An emission starts the channel's window again.\<close>

lemma emit_records_time:
  "lastEmission (channels (emit now k th) k) = now \<and> unflushed (channels (emit now k th) k) = []"
  by (simp add: emit_def)






































text \<open>The scenario of a chunk \<open>a\<close>, the timer at 100 ms, a chunk \<open>b\<close> at 250 ms and the
  exit: two updates, then the result with \<open>ab\<close>.\<close>

lemma two_chunks_two_updates:
  "emitted (world (exec (throttled_run 1024 0
      [At 0 (Data (StdoutData ''a'')), TimerAt 100, At 250 (Data (StdoutData ''b'')),
       At 300 (ProcessExited 0)])))
   = [(100, \<lparr>type = Stdout, content = ''a''\<rparr>), (250, \<lparr>type = Stdout, content = ''b''\<rparr>)]
 \<and> promise (throttled_run 1024 0
      [At 0 (Data (StdoutData ''a'')), TimerAt 100, At 250 (Data (StdoutData ''b'')),
       At 300 (ProcessExited 0)])
   = Resolved \<lparr>stdout = ''ab'', stderr = [], exitCode = Some 0, outcome = Success\<rparr>"
  by (simp add: throttled_run_def throttled_step_def lifecycle_def completes_def flush_first_def
        timer_fires_def throttling_def execution_init_def exec_init_def throttler_init_def
        stdout_on_data_def stderr_on_data_def call_onProgress_def resolve_def
        throttled_def on_timer_def check_def due_def emit_def flush_def flush_channel_def)




section \<open>Properties of completion\<close>

lemma lifecycle_settled: "promise x \<noteq> Pending \<Longrightarrow> lifecycle options x ev = x"
  by (simp add: lifecycle_def)

lemma lifecycle_pending:
  assumes "promise x = Pending"
  shows "lifecycle options x SpawnFailure = resolve x None Error"
    and "lifecycle options x (Data d) = x\<lparr>exec := on_data options (exec x) d\<rparr>"
    and "lifecycle options x CancelTriggered = ask x Cancelled"
    and "lifecycle options x TimeoutElapsed = ask x Timeout"
    and "lifecycle options x (ProcessExited code) =
           resolve x (Some code) (case asked x of None \<Rightarrow> Success | Some oc \<Rightarrow> oc)"
  using assms by (simp_all add: lifecycle_def)

lemma settled_stays:
  "promise x \<noteq> Pending \<Longrightarrow> foldl (lifecycle options) x evs = x"
  by (induction evs) (simp_all add: lifecycle_settled)

lemma lifecycle_not_rejected:
  "promise x \<noteq> Rejected msg \<Longrightarrow> promise (lifecycle options x ev) \<noteq> Rejected msg"
proof (cases "promise x = Pending")
  case True
  then show ?thesis
    by (cases ev) (simp_all add: lifecycle_pending resolve_def ask_def split: option.splits)
next
  case False
  assume "promise x \<noteq> Rejected msg"
  then show ?thesis using False by (simp add: lifecycle_settled)
qed

lemma run_not_rejected:
  "promise x \<noteq> Rejected msg \<Longrightarrow> promise (foldl (lifecycle options) x evs) \<noteq> Rejected msg"
proof (induction evs arbitrary: x)
  case Nil
  then show ?case by simp
next
  case (Cons ev evs)
  have "promise (lifecycle options x ev) \<noteq> Rejected msg"
    using Cons.prems by (rule lifecycle_not_rejected)
  then have "promise (foldl (lifecycle options) (lifecycle options x ev) evs) \<noteq> Rejected msg"
    by (rule Cons.IH)
  then show ?case by simp
qed

lemma outcome_of_settled:
  "promise x = Pending \<Longrightarrow>
   outcome_of (promise (foldl (lifecycle options) x evs)) = verdict (asked x) evs"
proof (induction evs arbitrary: x)
  case Nil
  then show ?case by (simp add: outcome_of_def verdict_def)
next
  case (Cons ev evs)
  show ?case
  proof (cases ev)
    case SpawnFailure
    have "promise (lifecycle options x ev) \<noteq> Pending"
      using Cons.prems SpawnFailure by (simp add: lifecycle_pending resolve_def)
    then have "foldl (lifecycle options) (lifecycle options x ev) evs = lifecycle options x ev"
      by (rule settled_stays)
    then show ?thesis
      using Cons.prems SpawnFailure by (simp add: lifecycle_pending resolve_def outcome_of_def verdict_def)
  next
    case (ProcessExited code)
    have "promise (lifecycle options x ev) \<noteq> Pending"
      using Cons.prems ProcessExited by (simp add: lifecycle_pending resolve_def)
    then have "foldl (lifecycle options) (lifecycle options x ev) evs = lifecycle options x ev"
      by (rule settled_stays)
    then show ?thesis
      using Cons.prems ProcessExited
      by (simp add: lifecycle_pending resolve_def outcome_of_def verdict_def split: option.splits)
  next
    case (Data d)
    have "promise (lifecycle options x ev) = Pending"
      using Cons.prems Data by (simp add: lifecycle_pending)
    then have "outcome_of (promise (foldl (lifecycle options) (lifecycle options x ev) evs))
        = verdict (asked (lifecycle options x ev)) evs"
      by (rule Cons.IH)
    then show ?thesis
      using Cons.prems Data
      by (simp add: lifecycle_pending verdict_def split: option.splits Lifecycle.splits)
  next
    case CancelTriggered
    have "promise (lifecycle options x ev) = Pending"
      using Cons.prems CancelTriggered by (simp add: lifecycle_pending ask_def split: option.splits)
    then have "outcome_of (promise (foldl (lifecycle options) (lifecycle options x ev) evs))
        = verdict (asked (lifecycle options x ev)) evs"
      by (rule Cons.IH)
    then show ?thesis
      using Cons.prems CancelTriggered
      by (simp add: lifecycle_pending verdict_def ask_def split: option.splits Lifecycle.splits)
  next
    case TimeoutElapsed
    have "promise (lifecycle options x ev) = Pending"
      using Cons.prems TimeoutElapsed by (simp add: lifecycle_pending ask_def split: option.splits)
    then have "outcome_of (promise (foldl (lifecycle options) (lifecycle options x ev) evs))
        = verdict (asked (lifecycle options x ev)) evs"
      by (rule Cons.IH)
    then show ?thesis
      using Cons.prems TimeoutElapsed
      by (simp add: lifecycle_pending verdict_def ask_def split: option.splits Lifecycle.splits)
  qed
qed

lemma first_cause_range: "first_cause evs \<noteq> Some Error \<and> first_cause evs \<noteq> Some Success"
  by (induction evs rule: first_cause.induct) simp_all

lemma execute_outcome:
  "outcome_of (promise (execute options w evs)) = verdict None evs"
  using outcome_of_settled [of "execution_init w" options evs]
  by (simp add: execute_def execution_init_def)

lemma error_iff_spawn_failure:
  "verdict None evs = Some Error \<longleftrightarrow> settling evs = Some SpawnFailure"
  using first_cause_range [of evs]
  by (auto simp: verdict_def split: option.splits Lifecycle.splits)

lemma settling_data_exit: "settling (map Data ds @ [ProcessExited code]) = Some (ProcessExited code)"
  by (induction ds) simp_all

lemma first_cause_data_exit: "first_cause (map Data ds @ [ProcessExited code]) = None"
  by (induction ds) simp_all

lemma own_exit_success:
  "verdict None (map Data ds @ [ProcessExited code]) = Some Success"
  by (simp add: verdict_def settling_data_exit first_cause_data_exit)

text \<open>
  C8. A run in which the process exits without having been asked to settles with outcome
  \<open>success\<close>, whatever the exit code; the outcome is \<open>error\<close> exactly when a spawn
  failure settles the run; the promise is never rejected, so a failure is a result and
  not an exception; and in every run the outcome is the one read off the events:
  \<open>cancelled\<close> or \<open>timeout\<close> after the first cause asked for, \<open>success\<close> without.
\<close>

theorem completion_outcome:
  "outcome_of (promise (execute options w (map Data ds @ [ProcessExited code]))) = Some Success
 \<and> (outcome_of (promise (execute options w evs)) = Some Error \<longleftrightarrow> settling evs = Some SpawnFailure)
 \<and> promise (execute options w evs) \<noteq> Rejected msg
 \<and> outcome_of (promise (execute options w evs)) = verdict None evs
 \<and> outcome_of (promise (execute options w [CancelTriggered, TimeoutElapsed, ProcessExited code]))
      = Some Cancelled
 \<and> outcome_of (promise (execute options w [TimeoutElapsed, CancelTriggered, ProcessExited code]))
      = Some Timeout"
proof -
  have "promise (execution_init w) \<noteq> Rejected msg"
    by (simp add: execution_init_def)
  then have "promise (execute options w evs) \<noteq> Rejected msg"
    unfolding execute_def by (rule run_not_rejected)
  moreover have "verdict None [CancelTriggered, TimeoutElapsed, ProcessExited code] = Some Cancelled"
    and "verdict None [TimeoutElapsed, CancelTriggered, ProcessExited code] = Some Timeout"
    by (simp_all add: verdict_def)
  ultimately show ?thesis
    by (simp add: execute_outcome own_exit_success error_iff_spawn_failure)
qed

end
